theory Spec2Isabelle
  imports Main "HOL-Library.Char_ord" "HOL-Library.List_Lexorder"
begin

section \<open>Python values and errors\<close>

text \<open>
  The values that the YAML loader hands to \<^verbatim>\<open>bin/optimize.py\<close>: null, booleans,
  integers, strings, sequences and mappings. A Python string is a list of characters, one
  \<^typ>\<open>char\<close> per code point (the code points below 256). A mapping is kept as its items
  in insertion order, with pairwise distinct keys; the keys are strings, as the variable
  and role documents of the playbook have them.
\<close>

datatype pyval =
    PNone
  | PBool bool
  | PInt int
  | PStr string
  | PList "pyval list"
  | PDict "(string \<times> pyval) list"

text \<open>
  Every \<^verbatim>\<open>raise\<close> of the script is a constructor, carrying the arguments of its
  message in the order in which the source formats them. \<open>IOError\<close> stands for a file
  that cannot be opened, read or parsed, \<open>TypeError\<close> and \<open>KeyError\<close> for the exceptions
  of the interpreter itself.
\<close>

datatype error =
    IOError string
  | TypeError
  | KeyError string
  | VarsFileNotMapping string pyval
  | RequirementsEmpty string
  | RequirementsNotList pyval string
  | RoleDefinitionNotDict pyval
  | RoleDefinitionWithoutName pyval
  | UnknownRoleStart string nat string "string list"
  | UnknownRoleEnd string nat string "string list"
  | EndWithoutOpening string nat string
  | EndOfOtherRole string nat string string
  | UnclosedBlocks string "string list"

text \<open>Truth value of a Python object, as \<^verbatim>\<open>or\<close> tests it.\<close>

fun truthy :: "pyval \<Rightarrow> bool" where
  "truthy PNone = False"
| "truthy (PBool b) = b"
| "truthy (PInt i) = (i \<noteq> 0)"
| "truthy (PStr s) = (s \<noteq> [])"
| "truthy (PList vs) = (vs \<noteq> [])"
| "truthy (PDict kvs) = (kvs \<noteq> [])"

text \<open>Lists and mappings cannot be members of a Python set.\<close>

fun hashable :: "pyval \<Rightarrow> bool" where
  "hashable (PList vs) = False"
| "hashable (PDict kvs) = False"
| "hashable v = True"

text \<open>\<^verbatim>\<open>s.startswith(p)\<close> on two strings.\<close>

definition startswith :: "string \<Rightarrow> string \<Rightarrow> bool" where
  "startswith s p = (take (length p) s = p)"

section \<open>Loading the variable names\<close>

text \<open>
  \<^verbatim>\<open>open\<close> followed by \<^verbatim>\<open>yaml.safe_load\<close> is a parameter \<open>safe_load\<close>: the parsed
  document of a path, or the error raised on the way.
\<close>

type_synonym loader = "string \<Rightarrow> error + pyval"

text \<open>
  \<^verbatim>\<open>load_combined_variable_names_from_files\<close>: the loop over the paths, with the set of
  names collected so far.
\<close>

fun load_names_loop :: "loader \<Rightarrow> string list \<Rightarrow> string set \<Rightarrow> error + string set" where
  "load_names_loop safe_load [] variable_names = Inr variable_names"
| "load_names_loop safe_load (vars_path # paths) variable_names =
     (case safe_load vars_path of
        Inl e \<Rightarrow> Inl e
      | Inr loaded \<Rightarrow>
          (let yaml_data = (if truthy loaded then loaded else PDict []) in
           case yaml_data of
             PDict kvs \<Rightarrow> load_names_loop safe_load paths (variable_names \<union> set (map fst kvs))
           | _ \<Rightarrow> Inl (VarsFileNotMapping vars_path yaml_data)))"

definition load_combined_variable_names_from_files ::
    "loader \<Rightarrow> string list \<Rightarrow> error + string set" where
  "load_combined_variable_names_from_files safe_load vars_yml_file_paths =
     load_names_loop safe_load vars_yml_file_paths {}"

section \<open>Role activation\<close>

text \<open>
  \<^verbatim>\<open>is_role_definition_in_use\<close>. The role definition is a mapping; \<^verbatim>\<open>.get\<close> is
  \<^const>\<open>map_of\<close>. A prefix that is neither None nor a string is not equal to \<^verbatim>\<open>""\<close>,
  and \<^verbatim>\<open>startswith\<close> raises TypeError on it as soon as there is a name to test.
\<close>

definition is_role_definition_in_use :: "(string \<times> pyval) list \<Rightarrow> string set \<Rightarrow> error + bool" where
  "is_role_definition_in_use role_definition used_variable_names =
     (case map_of role_definition ''activation_prefix'' of
        None \<Rightarrow> Inr False
      | Some PNone \<Rightarrow> Inr False
      | Some (PStr prefix) \<Rightarrow>
          if prefix = [] then Inr True
          else Inr (\<exists>var_name \<in> used_variable_names. startswith var_name prefix)
      | Some other \<Rightarrow>
          if used_variable_names = {} then Inr False else Inl TypeError)"

text \<open>
  The loop of the script over \<^verbatim>\<open>all_role_definitions\<close> that validates each definition
  and collects the enabled ones.
\<close>

fun enabled_role_definitions :: "pyval list \<Rightarrow> string set \<Rightarrow> error + pyval list" where
  "enabled_role_definitions [] used_variable_names = Inr []"
| "enabled_role_definitions (role_definition # rest) used_variable_names =
     (case role_definition of
        PDict kvs \<Rightarrow>
          (if map_of kvs ''name'' = None then Inl (RoleDefinitionWithoutName role_definition)
           else case is_role_definition_in_use kvs used_variable_names of
             Inl e \<Rightarrow> Inl e
           | Inr in_use \<Rightarrow>
               (case enabled_role_definitions rest used_variable_names of
                  Inl e \<Rightarrow> Inl e
                | Inr enabled \<Rightarrow> Inr (if in_use then role_definition # enabled else enabled)))
      | _ \<Rightarrow> Inl (RoleDefinitionNotDict role_definition))"

text \<open>\<^verbatim>\<open>definition["name"]\<close>.\<close>

fun definition_name :: "pyval \<Rightarrow> error + pyval" where
  "definition_name (PDict kvs) =
     (case map_of kvs ''name'' of None \<Rightarrow> Inl (KeyError ''name'') | Some v \<Rightarrow> Inr v)"
| "definition_name v = Inl TypeError"

text \<open>The set comprehension \<^verbatim>\<open>{definition["name"] for definition in definitions}\<close>.\<close>

fun role_names :: "pyval list \<Rightarrow> error + pyval set" where
  "role_names [] = Inr {}"
| "role_names (d # ds) =
     (case definition_name d of
        Inl e \<Rightarrow> Inl e
      | Inr v \<Rightarrow>
          if \<not> hashable v then Inl TypeError
          else (case role_names ds of Inl e \<Rightarrow> Inl e | Inr names \<Rightarrow> Inr (insert v names)))"

text \<open>
  The top level of the script from \<^verbatim>\<open>vars_paths\<close> to \<^verbatim>\<open>enabled_role_names\<close>: the
  pair of the enabled and the known role names.
\<close>

definition resolve :: "loader \<Rightarrow> string list \<Rightarrow> string \<Rightarrow> error + (pyval set \<times> pyval set)" where
  "resolve safe_load vars_paths src_requirements_yml_path =
     (case load_combined_variable_names_from_files safe_load vars_paths of
        Inl e \<Rightarrow> Inl e
      | Inr used_variable_names \<Rightarrow>
     (case safe_load src_requirements_yml_path of
        Inl e \<Rightarrow> Inl e
      | Inr PNone \<Rightarrow> Inl (RequirementsEmpty src_requirements_yml_path)
      | Inr (PList all_role_definitions) \<Rightarrow>
          (case enabled_role_definitions all_role_definitions used_variable_names of
             Inl e \<Rightarrow> Inl e
           | Inr enabled_definitions \<Rightarrow>
          (case role_names all_role_definitions of
             Inl e \<Rightarrow> Inl e
           | Inr known_role_names \<Rightarrow>
          (case role_names enabled_definitions of
             Inl e \<Rightarrow> Inl e
           | Inr enabled_role_names \<Rightarrow> Inr (enabled_role_names, known_role_names))))
      | Inr other \<Rightarrow> Inl (RequirementsNotList other src_requirements_yml_path)))"

section \<open>The block-scoped line filter\<close>

text \<open>
  The class \<^verbatim>\<open>\s\<close> of \<^verbatim>\<open>re\<close> on a string pattern is the Unicode white space:
  below 256 these are the code points 9 to 13, 28 to 32, 0x85 and 0xA0.
\<close>

definition is_space :: "char \<Rightarrow> bool" where
  "is_space c \<longleftrightarrow> c \<in> set [CHR 0x09, CHR 0x0A, CHR 0x0B, CHR 0x0C, CHR 0x0D,
     CHR 0x1C, CHR 0x1D, CHR 0x1E, CHR 0x1F, CHR 0x20, CHR 0x85, CHR 0xA0]"

text \<open>
  \<^verbatim>\<open>re.compile(r"^\s*#\s*KEYWORD\s*([^\s]+)$").match(line)\<close>, returning group 1.
  No step of the pattern can match in two ways: \<^verbatim>\<open>#\<close> and the first character of
  the keyword are not white space, and \<^verbatim>\<open>[^\s]\<close> is the complement of \<^verbatim>\<open>\s\<close>. Without
  the MULTILINE flag, \<^verbatim>\<open>$\<close> matches at the end of the string and before a newline that
  ends the string.
\<close>

definition regex_marker_match :: "string \<Rightarrow> string \<Rightarrow> string option" where
  "regex_marker_match keyword line =
     (case dropWhile is_space line of
        [] \<Rightarrow> None
      | c # after_hash \<Rightarrow>
          if c \<noteq> CHR ''#'' then None
          else
            let r = dropWhile is_space after_hash in
            if take (length keyword) r \<noteq> keyword then None
            else
              let t = dropWhile is_space (drop (length keyword) r);
                  role_name = takeWhile (\<lambda>c. \<not> is_space c) t;
                  rest = dropWhile (\<lambda>c. \<not> is_space c) t
              in if role_name \<noteq> [] \<and> (rest = [] \<or> rest = [CHR 0x0A])
                 then Some role_name else None)"

definition regex_role_specific_block_start :: "string \<Rightarrow> string option" where
  "regex_role_specific_block_start line = regex_marker_match ''role-specific:'' line"

definition regex_role_specific_block_end :: "string \<Rightarrow> string option" where
  "regex_role_specific_block_end line = regex_marker_match ''/role-specific:'' line"

text \<open>\<^verbatim>\<open>contents.split("\n")\<close> and \<^verbatim>\<open>"\n".join(out_lines)\<close>.\<close>

fun split_lines :: "string \<Rightarrow> string list" where
  "split_lines [] = [[]]"
| "split_lines (c # cs) =
     (if c = CHR 0x0A then [] # split_lines cs
      else (case split_lines cs of [] \<Rightarrow> [[c]] | l # ls \<Rightarrow> (c # l) # ls))"

fun join_lines :: "string list \<Rightarrow> string" where
  "join_lines [] = []"
| "join_lines [l] = l"
| "join_lines (l # ls) = l @ CHR 0x0A # join_lines ls"

text \<open>The files that the script can read: the text of each path that can be opened.\<close>

type_synonym filesystem = "string \<rightharpoonup> string"

definition read_file :: "filesystem \<Rightarrow> string \<Rightarrow> error + string" where
  "read_file fs path = (case fs path of None \<Rightarrow> Inl (IOError path) | Some contents \<Rightarrow> Inr contents)"

text \<open>
  The three local variables of \<^verbatim>\<open>process_file_contents\<close> that the loop updates. The
  enabled and the known role names are sets of strings here: the name that a marker
  captures is a string, so only the strings in these sets can answer a membership test,
  and \<^verbatim>\<open>sorted\<close> orders strings by their code points, as \<^const>\<open>sorted_list_of_set\<close> does.
\<close>

record scan_state =
  role_specific_stack :: "string list"
  out_lines :: "string list"
  sequential_blank_lines_count :: nat

text \<open>
  The body of the \<^verbatim>\<open>for\<close> loop, for one numbered line. The stack grows at its end:
  \<^verbatim>\<open>append\<close> is \<open>@ [x]\<close>, \<^verbatim>\<open>stack[-1]\<close> is \<^const>\<open>last\<close> and \<^verbatim>\<open>pop()\<close> is
  \<^const>\<open>butlast\<close>.
\<close>

definition loop_body ::
    "string \<Rightarrow> string set \<Rightarrow> string set \<Rightarrow> nat \<Rightarrow> string \<Rightarrow> scan_state \<Rightarrow> error + scan_state" where
  "loop_body file_name enabled_role_names_set known_role_names_set line_number line st =
     (case regex_role_specific_block_start line of
        Some role_name \<Rightarrow>
          if role_name \<notin> known_role_names_set
          then Inl (UnknownRoleStart role_name line_number file_name
                      (sorted_list_of_set known_role_names_set))
          else Inr (st\<lparr>role_specific_stack := role_specific_stack st @ [role_name]\<rparr>)
      | None \<Rightarrow>
     (case regex_role_specific_block_end line of
        Some role_name \<Rightarrow>
          if role_name \<notin> known_role_names_set
          then Inl (UnknownRoleEnd role_name line_number file_name
                      (sorted_list_of_set known_role_names_set))
          else if length (role_specific_stack st) = 0
          then Inl (EndWithoutOpening role_name line_number file_name)
          else if role_name \<noteq> last (role_specific_stack st)
          then Inl (EndOfOtherRole role_name line_number file_name (last (role_specific_stack st)))
          else Inr (st\<lparr>role_specific_stack := butlast (role_specific_stack st)\<rparr>)
      | None \<Rightarrow>
          if \<exists>role_name \<in> set (role_specific_stack st). role_name \<notin> enabled_role_names_set
          then Inr st
          else if line = []
          then (if sequential_blank_lines_count st \<le> 1
                then Inr (st\<lparr>out_lines := out_lines st @ [line],
                             sequential_blank_lines_count := sequential_blank_lines_count st + 1\<rparr>)
                else Inr st)
          else Inr (st\<lparr>out_lines := out_lines st @ [line],
                       sequential_blank_lines_count := 0\<rparr>)))"

text \<open>The \<^verbatim>\<open>for\<close> loop over the numbered lines; an error ends it.\<close>

fun scan_lines ::
    "string \<Rightarrow> string set \<Rightarrow> string set \<Rightarrow> nat \<Rightarrow> string list \<Rightarrow> scan_state \<Rightarrow> error + scan_state" where
  "scan_lines file_name enabled known line_number [] st = Inr st"
| "scan_lines file_name enabled known line_number (line # lines) st =
     (case loop_body file_name enabled known line_number line st of
        Inl e \<Rightarrow> Inl e
      | Inr st' \<Rightarrow> scan_lines file_name enabled known (line_number + 1) lines st')"

definition initial_state :: scan_state where
  "initial_state = \<lparr>role_specific_stack = [], out_lines = [], sequential_blank_lines_count = 0\<rparr>"

definition process_file_contents ::
    "filesystem \<Rightarrow> string \<Rightarrow> string set \<Rightarrow> string set \<Rightarrow> error + string" where
  "process_file_contents fs file_name enabled_role_names_set known_role_names_set =
     (case read_file fs file_name of
        Inl e \<Rightarrow> Inl e
      | Inr contents \<Rightarrow>
     (case scan_lines file_name enabled_role_names_set known_role_names_set 1
             (split_lines contents) initial_state of
        Inl e \<Rightarrow> Inl e
      | Inr st \<Rightarrow>
          if length (role_specific_stack st) \<noteq> 0
          then Inl (UnclosedBlocks file_name (role_specific_stack st))
          else Inr (join_lines (out_lines st))))"

section \<open>The vocabulary of the specification\<close>

text \<open>
  The lines that pass the retention rule: the regular lines scanned while every role on
  the open-block stack is enabled. Markers move the stack and are never retained.
\<close>

fun retained_lines :: "string set \<Rightarrow> string list \<Rightarrow> string list \<Rightarrow> string list" where
  "retained_lines enabled stack [] = []"
| "retained_lines enabled stack (line # lines) =
     (case regex_role_specific_block_start line of
        Some role_name \<Rightarrow> retained_lines enabled (stack @ [role_name]) lines
      | None \<Rightarrow>
     (case regex_role_specific_block_end line of
        Some role_name \<Rightarrow> retained_lines enabled (butlast stack) lines
      | None \<Rightarrow>
          if \<forall>role_name \<in> set stack. role_name \<in> enabled
          then line # retained_lines enabled stack lines
          else retained_lines enabled stack lines))"

text \<open>
  Blank-run compaction as the specification words it: \<open>k\<close> is the number of blank lines
  that come immediately before, so a blank line with \<open>k \<ge> 2\<close> is the third or a later
  member of its run and is dropped; every other line is kept.
\<close>

fun drop_long_runs :: "nat \<Rightarrow> string list \<Rightarrow> string list" where
  "drop_long_runs k [] = []"
| "drop_long_runs k (l # ls) =
     (if l = [] then (if k < 2 then l # drop_long_runs (Suc k) ls else drop_long_runs (Suc k) ls)
      else l # drop_long_runs 0 ls)"

text \<open>The error kinds of the filter, as the specification groups them.\<close>

fun unknown_role_error :: "error \<Rightarrow> bool" where
  "unknown_role_error (UnknownRoleStart r n f ks) = True"
| "unknown_role_error (UnknownRoleEnd r n f ks) = True"
| "unknown_role_error e = False"

fun unbalanced_block_error :: "error \<Rightarrow> bool" where
  "unbalanced_block_error (EndWithoutOpening r n f) = True"
| "unbalanced_block_error (EndOfOtherRole r n f l) = True"
| "unbalanced_block_error e = False"

text \<open>
  The scenario of the specification: one variable \<^verbatim>\<open>web_port\<close>, and the roles web
  (prefix \<^verbatim>\<open>web_\<close>), always (empty prefix) and off (no prefix).
\<close>

definition example_loader :: loader where
  "example_loader path =
     (if path = ''vars.yml'' then Inr (PDict [(''web_port'', PInt 1)])
      else if path = ''requirements.yml'' then
        Inr (PList [PDict [(''name'', PStr ''web''), (''activation_prefix'', PStr ''web_'')],
                    PDict [(''name'', PStr ''always''), (''activation_prefix'', PStr [])],
                    PDict [(''name'', PStr ''off'')]])
      else Inl (IOError path))"

section \<open>The role activation predicate\<close>

lemma startswith_iff: "startswith s p \<longleftrightarrow> (\<exists>t. s = p @ t)"
  unfolding startswith_def
  by (metis append_eq_conv_conj append_take_drop_id)

text \<open>
  C1. The activation predicate: without an \<open>activation_prefix\<close> the role is not enabled;
  with the empty prefix it is enabled for every set of variable names, the empty set
  included; with a non-empty prefix \<open>P\<close> it is enabled iff some used variable name is
  \<open>P\<close> followed by any string, character for character.
\<close>

theorem activation_predicate:
  "(map_of rd ''activation_prefix'' = None \<longrightarrow> is_role_definition_in_use rd names = Inr False)
   \<and> (map_of rd ''activation_prefix'' = Some (PStr []) \<longrightarrow>
        is_role_definition_in_use rd names = Inr True
        \<and> is_role_definition_in_use rd {} = Inr True)
   \<and> (P \<noteq> [] \<and> map_of rd ''activation_prefix'' = Some (PStr P) \<longrightarrow>
        is_role_definition_in_use rd names = Inr (\<exists>v \<in> names. \<exists>t. v = P @ t))"
  by (simp add: is_role_definition_in_use_def startswith_iff)

theorem activation_predicate_witness:
  "is_role_definition_in_use [(''name'', PStr ''off'')] {''db_host'', ''api_key''} = Inr False
   \<and> is_role_definition_in_use [(''name'', PStr ''always''), (''activation_prefix'', PStr [])] {}
       = Inr True
   \<and> is_role_definition_in_use [(''name'', PStr ''db''), (''activation_prefix'', PStr ''db_'')]
         {''db_host'', ''api_key''} = Inr True
   \<and> is_role_definition_in_use [(''name'', PStr ''cache''), (''activation_prefix'', PStr ''cache_'')]
         {''db_host'', ''api_key''} = Inr False"
  using activation_predicate [of "[(''name'', PStr ''off'')]" "{''db_host'', ''api_key''}" "[]"]
    activation_predicate [of "[(''name'', PStr ''always''), (''activation_prefix'', PStr [])]" "{}" "[]"]
    activation_predicate [of "[(''name'', PStr ''db''), (''activation_prefix'', PStr ''db_'')]"
      "{''db_host'', ''api_key''}" "''db_''"]
    activation_predicate [of "[(''name'', PStr ''cache''), (''activation_prefix'', PStr ''cache_'')]"
      "{''db_host'', ''api_key''}" "''cache_''"]
  by simp

section \<open>Markers and single steps of the scan\<close>

lemma keyword_clash:
  "take (length ''role-specific:'') r = ''role-specific:'' \<Longrightarrow>
   take (length ''/role-specific:'') r = ''/role-specific:'' \<Longrightarrow> False"
  by (cases r) auto

lemma start_end_disjoint:
  "regex_role_specific_block_end line = Some r \<Longrightarrow> regex_role_specific_block_start line = None"
  unfolding regex_role_specific_block_end_def regex_role_specific_block_start_def
    regex_marker_match_def Let_def
  using keyword_clash
  by (auto split: list.splits if_splits)

lemma blank_not_marker:
  "regex_role_specific_block_start [] = None" "regex_role_specific_block_end [] = None"
  by (simp_all add: regex_role_specific_block_start_def regex_role_specific_block_end_def
      regex_marker_match_def)

lemma loop_body_start:
  "regex_role_specific_block_start line = Some r \<Longrightarrow>
   loop_body f en kn n line st =
     (if r \<in> kn then Inr (st\<lparr>role_specific_stack := role_specific_stack st @ [r]\<rparr>)
      else Inl (UnknownRoleStart r n f (sorted_list_of_set kn)))"
  by (simp add: loop_body_def)

lemma loop_body_end:
  "regex_role_specific_block_end line = Some r \<Longrightarrow>
   loop_body f en kn n line st =
     (if r \<notin> kn then Inl (UnknownRoleEnd r n f (sorted_list_of_set kn))
      else if role_specific_stack st = [] then Inl (EndWithoutOpening r n f)
      else if r \<noteq> last (role_specific_stack st)
      then Inl (EndOfOtherRole r n f (last (role_specific_stack st)))
      else Inr (st\<lparr>role_specific_stack := butlast (role_specific_stack st)\<rparr>))"
  by (simp add: loop_body_def start_end_disjoint)

lemma loop_body_regular:
  "regex_role_specific_block_start line = None \<Longrightarrow> regex_role_specific_block_end line = None \<Longrightarrow>
   loop_body f en kn n line st =
     Inr (if \<exists>r \<in> set (role_specific_stack st). r \<notin> en then st
          else if line = [] then
            (if sequential_blank_lines_count st \<le> 1
             then st\<lparr>out_lines := out_lines st @ [line],
                     sequential_blank_lines_count := sequential_blank_lines_count st + 1\<rparr>
             else st)
          else st\<lparr>out_lines := out_lines st @ [line], sequential_blank_lines_count := 0\<rparr>)"
  by (simp add: loop_body_def)

lemma scan_lines_append:
  "scan_lines f en kn n (xs @ ys) st =
     (case scan_lines f en kn n xs st of
        Inl e \<Rightarrow> Inl e
      | Inr st' \<Rightarrow> scan_lines f en kn (n + length xs) ys st')"
  by (induction xs arbitrary: n st) (auto split: sum.splits)

lemma scan_lines_out:
  "scan_lines f en kn n lines st = Inr st' \<Longrightarrow> sequential_blank_lines_count st = min k 2 \<Longrightarrow>
   out_lines st' = out_lines st @ drop_long_runs k (retained_lines en (role_specific_stack st) lines)"
proof (induction lines arbitrary: n st k)
  case Nil
  then show ?case by simp
next
  case (Cons line lines)
  from Cons.prems(1) obtain st1 where
    step: "loop_body f en kn n line st = Inr st1" and
    rest: "scan_lines f en kn (n + 1) lines st1 = Inr st'"
    by (auto split: sum.splits)
  show ?case
  proof (cases "regex_role_specific_block_start line")
    case (Some r)
    with step have st1: "st1 = st\<lparr>role_specific_stack := role_specific_stack st @ [r]\<rparr>"
      by (auto simp: loop_body_start split: if_splits)
    from Cons.IH [OF rest, of k] Cons.prems(2) st1 Some show ?thesis by simp
  next
    case None
    note no_start = None
    show ?thesis
    proof (cases "regex_role_specific_block_end line")
      case (Some r)
      with step have st1: "st1 = st\<lparr>role_specific_stack := butlast (role_specific_stack st)\<rparr>"
        by (auto simp: loop_body_end split: if_splits)
      from Cons.IH [OF rest, of k] Cons.prems(2) st1 Some no_start show ?thesis by simp
    next
      case None
      note reg = loop_body_regular [OF no_start None, of f en kn n st]
      show ?thesis
      proof (cases "\<exists>r \<in> set (role_specific_stack st). r \<notin> en")
        case True
        with step reg have "st1 = st" by simp
        with Cons.IH [OF rest, of k] Cons.prems(2) True no_start None show ?thesis by auto
      next
        case False
        note all = False
        show ?thesis
        proof (cases "line = []")
          case False
          with step reg all have
            st1: "st1 = st\<lparr>out_lines := out_lines st @ [line], sequential_blank_lines_count := 0\<rparr>"
            by simp
          from Cons.IH [OF rest, of 0] st1 all no_start None False show ?thesis by simp
        next
          case True
          show ?thesis
          proof (cases "k < 2")
            case True
            with step reg all \<open>line = []\<close> Cons.prems(2) have
              st1: "st1 = st\<lparr>out_lines := out_lines st @ [line],
                     sequential_blank_lines_count := sequential_blank_lines_count st + 1\<rparr>"
              by simp
            have "sequential_blank_lines_count st1 = min (Suc k) 2"
              using st1 True Cons.prems(2) by simp
            from Cons.IH [OF rest this] st1 all no_start None \<open>line = []\<close> True
            show ?thesis by simp
          next
            case False
            with step reg all \<open>line = []\<close> Cons.prems(2) have st1: "st1 = st" by simp
            have "sequential_blank_lines_count st1 = min (Suc k) 2"
              using st1 False Cons.prems(2) by simp
            from Cons.IH [OF rest this] st1 all no_start None \<open>line = []\<close> False
            show ?thesis by simp
          qed
        qed
      qed
    qed
  qed
qed

lemma retained_lines_regular:
  "\<forall>l \<in> set ls. regex_role_specific_block_start l = None \<and> regex_role_specific_block_end l = None \<Longrightarrow>
   retained_lines en stack ls = (if \<forall>r \<in> set stack. r \<in> en then ls else [])"
  by (induction ls) auto

lemma retained_lines_subset:
  "l \<in> set (retained_lines en stack ls) \<Longrightarrow>
   l \<in> set ls \<and> regex_role_specific_block_start l = None \<and> regex_role_specific_block_end l = None"
  by (induction ls arbitrary: stack) (auto split: option.splits if_splits)

lemma scan_lines_regular:
  "\<forall>l \<in> set ls. regex_role_specific_block_start l = None \<and> regex_role_specific_block_end l = None \<Longrightarrow>
   \<exists>st'. scan_lines f en kn n ls st = Inr st' \<and> role_specific_stack st' = role_specific_stack st"
proof (induction ls arbitrary: n st)
  case Nil
  then show ?case by simp
next
  case (Cons l ls)
  then obtain st1 where st1: "loop_body f en kn n l st = Inr st1"
      "role_specific_stack st1 = role_specific_stack st"
    by (auto simp: loop_body_regular)
  from Cons.IH [of "n + 1" st1] Cons.prems st1 show ?case by auto
qed

section \<open>Splitting and joining lines\<close>

lemma split_lines_nonempty: "split_lines s \<noteq> []"
  by (induction s) (auto split: list.splits)

lemma split_lines_no_newline: "l \<in> set (split_lines s) \<Longrightarrow> CHR 0x0A \<notin> set l"
proof (induction s arbitrary: l)
  case Nil
  then show ?case by simp
next
  case (Cons c cs)
  obtain h t where ht: "split_lines cs = h # t"
    using split_lines_nonempty [of cs] by (cases "split_lines cs") auto
  with Cons show ?case by (auto split: if_splits)
qed

lemma join_split: "join_lines (split_lines s) = s"
proof (induction s)
  case Nil
  then show ?case by simp
next
  case (Cons c cs)
  obtain h t where ht: "split_lines cs = h # t"
    using split_lines_nonempty [of cs] by (cases "split_lines cs") auto
  show ?case
  proof (cases "c = CHR 0x0A")
    case True
    with Cons ht show ?thesis by simp
  next
    case False
    with Cons ht show ?thesis by (cases t) auto
  qed
qed

lemma split_lines_append_line:
  "CHR 0x0A \<notin> set l \<Longrightarrow> split_lines (l @ CHR 0x0A # s) = l # split_lines s"
  by (induction l) (auto split: list.splits)

lemma split_lines_single: "CHR 0x0A \<notin> set l \<Longrightarrow> split_lines l = [l]"
  by (induction l) (auto split: list.splits)

lemma split_join:
  "ls \<noteq> [] \<Longrightarrow> \<forall>l \<in> set ls. CHR 0x0A \<notin> set l \<Longrightarrow> split_lines (join_lines ls) = ls"
proof (induction ls rule: join_lines.induct)
  case 1
  then show ?case by simp
next
  case (2 l)
  then show ?case by (simp add: split_lines_single)
next
  case (3 l v va)
  then show ?case by (simp add: split_lines_append_line)
qed

section \<open>Blank-run compaction\<close>

lemma drop_long_runs_subset: "set (drop_long_runs k ls) \<subseteq> set ls"
  by (induction ls arbitrary: k) auto

lemma drop_long_runs_ge2: "2 \<le> k \<Longrightarrow> drop_long_runs k ls = drop_long_runs 2 ls"
proof (induction ls arbitrary: k)
  case Nil
  then show ?case by simp
next
  case (Cons l ls)
  have "drop_long_runs (Suc k) ls = drop_long_runs 2 ls"
    using Cons.IH [of "Suc k"] Cons.prems by simp
  moreover have "drop_long_runs (Suc 2) ls = drop_long_runs 2 ls"
    using Cons.IH [of "Suc 2"] by simp
  ultimately show ?case using Cons.prems by simp
qed

lemma drop_long_runs_idem:
  "drop_long_runs k (drop_long_runs k ls) = drop_long_runs k ls"
proof (induction ls arbitrary: k)
  case Nil
  then show ?case by simp
next
  case (Cons l ls)
  show ?case
  proof (cases "l = []")
    case False
    with Cons.IH [of 0] show ?thesis by simp
  next
    case True
    note blank = True
    show ?thesis
    proof (cases "k < 2")
      case True
      with blank Cons.IH [of "Suc k"] show ?thesis by simp
    next
      case False
      then have "2 \<le> k" by simp
      have "drop_long_runs k (drop_long_runs (Suc k) ls)
          = drop_long_runs 2 (drop_long_runs (Suc k) ls)"
        using \<open>2 \<le> k\<close> by (rule drop_long_runs_ge2)
      also have "\<dots> = drop_long_runs (Suc k) (drop_long_runs (Suc k) ls)"
        using \<open>2 \<le> k\<close> by (intro drop_long_runs_ge2 [symmetric]) simp
      also have "\<dots> = drop_long_runs (Suc k) ls"
        by (rule Cons.IH)
      finally show ?thesis using False blank by simp
    qed
  qed
qed

lemma drop_long_runs_replicate:
  "drop_long_runs k (replicate n [] @ ys) =
     replicate (min n (2 - k)) [] @ drop_long_runs (k + n) ys"
proof (induction n arbitrary: k)
  case 0
  then show ?case by simp
next
  case (Suc n)
  show ?case
  proof (cases "k < 2")
    case True
    then have "min (Suc n) (2 - k) = Suc (min n (2 - Suc k))" by auto
    with True Suc [of "Suc k"] show ?thesis by simp
  next
    case False
    with Suc [of "Suc k"] show ?thesis by simp
  qed
qed

lemma drop_long_runs_append:
  "xs = [] \<or> last xs \<noteq> [] \<Longrightarrow>
   drop_long_runs k (xs @ ys) = drop_long_runs k xs @ drop_long_runs (if xs = [] then k else 0) ys"
proof (induction xs arbitrary: k)
  case Nil
  then show ?case by simp
next
  case (Cons x xs)
  show ?case
  proof (cases "xs = []")
    case True
    with Cons.prems show ?thesis by simp
  next
    case False
    with Cons.prems have "last xs \<noteq> []" by simp
    with Cons.IH False have "\<And>k. drop_long_runs k (xs @ ys) = drop_long_runs k xs @ drop_long_runs 0 ys"
      by simp
    then show ?thesis by simp
  qed
qed

lemma drop_long_runs_run:
  assumes "xs = [] \<or> last xs \<noteq> []" and "ys = [] \<or> hd ys \<noteq> []"
  shows "drop_long_runs 0 (xs @ replicate n [] @ ys) =
         drop_long_runs 0 xs @ replicate (min n 2) [] @ drop_long_runs 0 ys"
proof -
  have "drop_long_runs n ys = drop_long_runs 0 ys"
    using assms(2) by (cases ys) auto
  moreover have "drop_long_runs 0 (xs @ replicate n [] @ ys) =
      drop_long_runs 0 xs @ drop_long_runs 0 (replicate n [] @ ys)"
    using drop_long_runs_append [OF assms(1), of 0 "replicate n [] @ ys"] by simp
  ultimately show ?thesis
    using drop_long_runs_replicate [of 0 n ys] by simp
qed

section \<open>Whole files\<close>

lemma process_file_contents_scan:
  "fs f = Some c \<Longrightarrow> scan_lines f en kn 1 (split_lines c) initial_state = Inr st \<Longrightarrow>
   process_file_contents fs f en kn =
     (if role_specific_stack st \<noteq> [] then Inl (UnclosedBlocks f (role_specific_stack st))
      else Inr (join_lines (out_lines st)))"
  by (simp add: process_file_contents_def read_file_def)

lemma process_file_contents_error:
  "fs f = Some c \<Longrightarrow> scan_lines f en kn 1 (split_lines c) initial_state = Inl e \<Longrightarrow>
   process_file_contents fs f en kn = Inl e"
  by (simp add: process_file_contents_def read_file_def)

lemma process_file_contents_InrD:
  assumes "process_file_contents fs f en kn = Inr out"
  obtains c st where "fs f = Some c"
    and "scan_lines f en kn 1 (split_lines c) initial_state = Inr st"
    and "role_specific_stack st = []" and "out = join_lines (out_lines st)"
  using assms unfolding process_file_contents_def read_file_def
  by (auto split: option.splits sum.splits if_splits)

lemma scan_lines_initial_out:
  assumes "scan_lines f en kn n ls initial_state = Inr st"
  shows "out_lines st = drop_long_runs 0 (retained_lines en [] ls)"
  using scan_lines_out [OF assms, of 0] by (simp add: initial_state_def)

lemma process_regular_lines:
  assumes "fs f = Some c"
    and "\<forall>l \<in> set (split_lines c).
           regex_role_specific_block_start l = None \<and> regex_role_specific_block_end l = None"
  shows "process_file_contents fs f en kn = Inr (join_lines (drop_long_runs 0 (split_lines c)))"
proof -
  from scan_lines_regular [OF assms(2), of f en kn 1 initial_state]
  obtain st where st: "scan_lines f en kn 1 (split_lines c) initial_state = Inr st"
    and stack: "role_specific_stack st = []"
    by (auto simp: initial_state_def)
  have "out_lines st = drop_long_runs 0 (split_lines c)"
    using scan_lines_initial_out [OF st] retained_lines_regular [OF assms(2), of en "[]"] by simp
  with process_file_contents_scan [of fs f c, OF assms(1) st] stack show ?thesis by simp
qed

lemma process_output_lines:
  assumes "process_file_contents fs f en kn = Inr out"
  shows "\<exists>ls. out = join_lines (drop_long_runs 0 ls)
      \<and> (\<forall>l \<in> set ls. CHR 0x0A \<notin> set l \<and> regex_role_specific_block_start l = None
            \<and> regex_role_specific_block_end l = None)"
proof -
  from assms obtain c st where c: "fs f = Some c"
    and st: "scan_lines f en kn 1 (split_lines c) initial_state = Inr st"
    and out: "out = join_lines (out_lines st)"
    by (rule process_file_contents_InrD)
  let ?R = "retained_lines en [] (split_lines c)"
  have "out = join_lines (drop_long_runs 0 ?R)"
    using out scan_lines_initial_out [OF st] by simp
  moreover have "\<forall>l \<in> set ?R. CHR 0x0A \<notin> set l \<and> regex_role_specific_block_start l = None
            \<and> regex_role_specific_block_end l = None"
    using retained_lines_subset split_lines_no_newline by blast
  ultimately show ?thesis by blast
qed

section \<open>Scans that fail, scans that only open blocks\<close>

lemma scan_lines_unknown:
  assumes "line \<in> set ls"
    and "regex_role_specific_block_start line = Some r \<or> regex_role_specific_block_end line = Some r"
    and "r \<notin> kn"
  shows "\<exists>e. scan_lines f en kn n ls st = Inl e"
  using assms(1)
proof (induction ls arbitrary: n st)
  case Nil
  then show ?case by simp
next
  case (Cons l ls)
  show ?case
  proof (cases "loop_body f en kn n l st")
    case (Inl e)
    then show ?thesis by simp
  next
    case (Inr st1)
    have "l \<noteq> line"
    proof
      assume "l = line"
      with assms(2,3) have "\<exists>e. loop_body f en kn n l st = Inl e"
        by (auto simp: loop_body_start loop_body_end)
      with Inr show False by simp
    qed
    with Cons.prems have "line \<in> set ls" by simp
    from Cons.IH [OF this, of "n + 1" st1] Inr show ?thesis by simp
  qed
qed

lemma scan_lines_first_error:
  assumes "scan_lines f en kn n pre st = Inr st1"
    and "loop_body f en kn (n + length pre) line st1 = Inl e"
  shows "scan_lines f en kn n (pre @ line # post) st = Inl e"
  using assms by (simp add: scan_lines_append)

lemma scan_lines_starts:
  assumes "list_all2 (\<lambda>l r. regex_role_specific_block_start l = Some r) ms rs"
    and "set rs \<subseteq> kn"
  shows "scan_lines f en kn n ms st =
     Inr (st\<lparr>role_specific_stack := role_specific_stack st @ rs\<rparr>)"
  using assms
proof (induction ms rs arbitrary: n st rule: list_all2_induct)
  case Nil
  then show ?case by simp
next
  case (Cons l r ms rs)
  then show ?case by (simp add: loop_body_start)
qed

lemma drop_long_runs_no_blank: "[] \<notin> set ls \<Longrightarrow> drop_long_runs k ls = ls"
  by (induction ls arbitrary: k) auto

text \<open>The definitions that evaluate the two marker patterns on a given line.\<close>

lemmas marker_eval = regex_role_specific_block_start_def regex_role_specific_block_end_def
  regex_marker_match_def is_space_def

section \<open>Retention of regular lines\<close>

text \<open>
  C2. A line that is no marker never fails and never moves the stack. It is appended to
  the output iff every role on the open-block stack is enabled and blank-run compaction
  lets it through (it is not blank, or fewer than two blank lines were just emitted);
  otherwise the output is unchanged. With an empty stack only compaction decides. For
  blocks nested as A then B, closed in order, the inner line is in the output iff both A
  and B are enabled.
\<close>

theorem regular_line_retention:
  "(regex_role_specific_block_start line = None \<and> regex_role_specific_block_end line = None \<longrightarrow>
      (\<exists>st'. loop_body f en kn n line st = Inr st'
        \<and> role_specific_stack st' = role_specific_stack st
        \<and> (out_lines st' = out_lines st @ [line] \<longleftrightarrow>
             (\<forall>r \<in> set (role_specific_stack st). r \<in> en)
             \<and> (line \<noteq> [] \<or> sequential_blank_lines_count st \<le> 1))
        \<and> (out_lines st' \<noteq> out_lines st @ [line] \<longrightarrow> out_lines st' = out_lines st)
        \<and> (role_specific_stack st = [] \<longrightarrow>
             (out_lines st' = out_lines st @ [line] \<longleftrightarrow>
                line \<noteq> [] \<or> sequential_blank_lines_count st \<le> 1))))
   \<and> (regex_role_specific_block_start open_A = Some A
      \<and> regex_role_specific_block_start open_B = Some B
      \<and> regex_role_specific_block_start inner = None
      \<and> regex_role_specific_block_end inner = None \<and> inner \<noteq> []
      \<and> regex_role_specific_block_end close_B = Some B
      \<and> regex_role_specific_block_end close_A = Some A
      \<and> A \<in> kn \<and> B \<in> kn \<longrightarrow>
      scan_lines f en kn 1 [open_A, open_B, inner, close_B, close_A] initial_state =
        Inr \<lparr>role_specific_stack = [],
             out_lines = (if A \<in> en \<and> B \<in> en then [inner] else []),
             sequential_blank_lines_count = 0\<rparr>)"
proof (intro conjI impI)
  assume "regex_role_specific_block_start line = None \<and> regex_role_specific_block_end line = None"
  then show "\<exists>st'. loop_body f en kn n line st = Inr st'
        \<and> role_specific_stack st' = role_specific_stack st
        \<and> (out_lines st' = out_lines st @ [line] \<longleftrightarrow>
             (\<forall>r \<in> set (role_specific_stack st). r \<in> en)
             \<and> (line \<noteq> [] \<or> sequential_blank_lines_count st \<le> 1))
        \<and> (out_lines st' \<noteq> out_lines st @ [line] \<longrightarrow> out_lines st' = out_lines st)
        \<and> (role_specific_stack st = [] \<longrightarrow>
             (out_lines st' = out_lines st @ [line] \<longleftrightarrow>
                line \<noteq> [] \<or> sequential_blank_lines_count st \<le> 1))"
    by (auto simp: loop_body_regular)
next
  assume "regex_role_specific_block_start open_A = Some A
      \<and> regex_role_specific_block_start open_B = Some B
      \<and> regex_role_specific_block_start inner = None
      \<and> regex_role_specific_block_end inner = None \<and> inner \<noteq> []
      \<and> regex_role_specific_block_end close_B = Some B
      \<and> regex_role_specific_block_end close_A = Some A
      \<and> A \<in> kn \<and> B \<in> kn"
  then show "scan_lines f en kn 1 [open_A, open_B, inner, close_B, close_A] initial_state =
        Inr \<lparr>role_specific_stack = [],
             out_lines = (if A \<in> en \<and> B \<in> en then [inner] else []),
             sequential_blank_lines_count = 0\<rparr>"
    by (simp add: loop_body_start loop_body_end loop_body_regular initial_state_def)
qed

theorem regular_line_retention_witness:
  "regex_role_specific_block_start ''x: 1'' = None \<and> regex_role_specific_block_end ''x: 1'' = None
   \<and> (\<exists>st'. loop_body ''setup.yml'' {''A''} {''A'', ''B''} 3 ''x: 1''
          \<lparr>role_specific_stack = [''A'', ''B''], out_lines = [], sequential_blank_lines_count = 0\<rparr>
          = Inr st'
        \<and> out_lines st' = [])
   \<and> regex_role_specific_block_start ''# role-specific:A'' = Some ''A''
   \<and> regex_role_specific_block_start ''  # role-specific: B'' = Some ''B''
   \<and> regex_role_specific_block_end ''  # /role-specific: B'' = Some ''B''
   \<and> regex_role_specific_block_end ''# /role-specific:A'' = Some ''A''
   \<and> scan_lines ''setup.yml'' {''A''} {''A'', ''B''} 1
        [''# role-specific:A'', ''  # role-specific: B'', ''x: 1'', ''  # /role-specific: B'',
         ''# /role-specific:A''] initial_state =
       Inr \<lparr>role_specific_stack = [], out_lines = [], sequential_blank_lines_count = 0\<rparr>
   \<and> scan_lines ''setup.yml'' {''A'', ''B''} {''A'', ''B''} 1
        [''# role-specific:A'', ''  # role-specific: B'', ''x: 1'', ''  # /role-specific: B'',
         ''# /role-specific:A''] initial_state =
       Inr \<lparr>role_specific_stack = [], out_lines = [''x: 1''], sequential_blank_lines_count = 0\<rparr>"
proof -
  have m: "regex_role_specific_block_start ''x: 1'' = None"
    "regex_role_specific_block_end ''x: 1'' = None"
    "regex_role_specific_block_start ''# role-specific:A'' = Some ''A''"
    "regex_role_specific_block_start ''  # role-specific: B'' = Some ''B''"
    "regex_role_specific_block_end ''  # /role-specific: B'' = Some ''B''"
    "regex_role_specific_block_end ''# /role-specific:A'' = Some ''A''"
    by (simp_all add: marker_eval)
  note t = regular_line_retention [where line = "''x: 1''" and open_A = "''# role-specific:A''"
      and open_B = "''  # role-specific: B''" and inner = "''x: 1''"
      and close_B = "''  # /role-specific: B''" and close_A = "''# /role-specific:A''"
      and A = "''A''" and B = "''B''" and f = "''setup.yml''" and kn = "{''A'', ''B''}" and n = 3
      and st = "\<lparr>role_specific_stack = [''A'', ''B''], out_lines = [],
                 sequential_blank_lines_count = 0\<rparr>"]
  from m t [where en = "{''A''}"] t [where en = "{''A'', ''B''}"] show ?thesis
    by auto
qed

section \<open>Blank runs in the output\<close>

lemma example_lines:
  "scan_lines f en kn 1 [''a'', [], [], [], ''b''] initial_state =
     Inr \<lparr>role_specific_stack = [], out_lines = [''a'', [], [], ''b''],
          sequential_blank_lines_count = 0\<rparr>"
  by (simp add: loop_body_def initial_state_def marker_eval)

lemma loop_body_no_accounting:
  assumes "loop_body f en kn n line st = Inr st'"
    and "regex_role_specific_block_start line \<noteq> None \<or> regex_role_specific_block_end line \<noteq> None
         \<or> (\<exists>r \<in> set (role_specific_stack st). r \<notin> en)"
  shows "out_lines st' = out_lines st
       \<and> sequential_blank_lines_count st' = sequential_blank_lines_count st"
proof (cases "regex_role_specific_block_start line")
  case (Some r)
  with assms(1) show ?thesis by (auto simp: loop_body_start split: if_splits)
next
  case None
  note no_start = None
  show ?thesis
  proof (cases "regex_role_specific_block_end line")
    case (Some r)
    with assms(1) show ?thesis by (auto simp: loop_body_end split: if_splits)
  next
    case None
    with no_start assms show ?thesis by (auto simp: loop_body_regular)
  qed
qed

text \<open>
  C3. Compaction sees only the lines that pass the retention rule. Such a line, when not
  blank, is appended and resets the counter to zero; when blank, it is appended and counted
  while fewer than two blank lines were just emitted, and dropped (the state unchanged)
  from the third of its run on. A marker that is accepted and a line dropped by the
  retention rule leave the output and the counter as they are. So the output of a scan is
  the retained lines with the third and later members of every run of blank lines removed,
  and a run of \<open>m\<close> blank lines between other lines leaves \<open>min m 2\<close> of them. The lines
  a, blank, blank, blank, b without guards give a, blank, blank, b.
\<close>

theorem blank_run_compaction:
  "(regex_role_specific_block_start line = None \<and> regex_role_specific_block_end line = None
      \<and> (\<forall>r \<in> set (role_specific_stack st). r \<in> en) \<longrightarrow>
      loop_body f en kn n line st =
        Inr (if line \<noteq> []
             then st\<lparr>out_lines := out_lines st @ [line], sequential_blank_lines_count := 0\<rparr>
             else if sequential_blank_lines_count st < 2
             then st\<lparr>out_lines := out_lines st @ [line],
                     sequential_blank_lines_count := sequential_blank_lines_count st + 1\<rparr>
             else st))
   \<and> (loop_body f en kn n line st = Inr st'
      \<and> (regex_role_specific_block_start line \<noteq> None \<or> regex_role_specific_block_end line \<noteq> None
         \<or> (\<exists>r \<in> set (role_specific_stack st). r \<notin> en)) \<longrightarrow>
      out_lines st' = out_lines st
      \<and> sequential_blank_lines_count st' = sequential_blank_lines_count st)
   \<and> (scan_lines f en kn n ls initial_state = Inr st'' \<longrightarrow>
      out_lines st'' = drop_long_runs 0 (retained_lines en [] ls))
   \<and> ((xs = [] \<or> last xs \<noteq> []) \<and> (ys = [] \<or> hd ys \<noteq> []) \<longrightarrow>
      drop_long_runs 0 (xs @ replicate m [] @ ys) =
        drop_long_runs 0 xs @ replicate (min m 2) [] @ drop_long_runs 0 ys)
   \<and> scan_lines f en kn 1 [''a'', [], [], [], ''b''] initial_state =
        Inr \<lparr>role_specific_stack = [], out_lines = [''a'', [], [], ''b''],
             sequential_blank_lines_count = 0\<rparr>"
proof (intro conjI impI)
  assume "regex_role_specific_block_start line = None \<and> regex_role_specific_block_end line = None
      \<and> (\<forall>r \<in> set (role_specific_stack st). r \<in> en)"
  then show "loop_body f en kn n line st =
        Inr (if line \<noteq> []
             then st\<lparr>out_lines := out_lines st @ [line], sequential_blank_lines_count := 0\<rparr>
             else if sequential_blank_lines_count st < 2
             then st\<lparr>out_lines := out_lines st @ [line],
                     sequential_blank_lines_count := sequential_blank_lines_count st + 1\<rparr>
             else st)"
    by (auto simp: loop_body_regular)
next
  assume a: "loop_body f en kn n line st = Inr st'
      \<and> (regex_role_specific_block_start line \<noteq> None \<or> regex_role_specific_block_end line \<noteq> None
         \<or> (\<exists>r \<in> set (role_specific_stack st). r \<notin> en))"
  then show "out_lines st' = out_lines st"
    using loop_body_no_accounting [of f en kn n line st st'] by blast
  from a show "sequential_blank_lines_count st' = sequential_blank_lines_count st"
    using loop_body_no_accounting [of f en kn n line st st'] by blast
next
  assume "scan_lines f en kn n ls initial_state = Inr st''"
  then show "out_lines st'' = drop_long_runs 0 (retained_lines en [] ls)"
    by (rule scan_lines_initial_out)
next
  assume "(xs = [] \<or> last xs \<noteq> []) \<and> (ys = [] \<or> hd ys \<noteq> [])"
  then show "drop_long_runs 0 (xs @ replicate m [] @ ys) =
        drop_long_runs 0 xs @ replicate (min m 2) [] @ drop_long_runs 0 ys"
    using drop_long_runs_run [of xs ys m] by blast
next
  show "scan_lines f en kn 1 [''a'', [], [], [], ''b''] initial_state =
        Inr \<lparr>role_specific_stack = [], out_lines = [''a'', [], [], ''b''],
             sequential_blank_lines_count = 0\<rparr>"
    by (rule example_lines)
qed

theorem blank_run_compaction_witness:
  "regex_role_specific_block_start [] = None \<and> regex_role_specific_block_end [] = None
   \<and> loop_body ''group_vars'' {''on''} {''on'', ''off''} 10 []
        \<lparr>role_specific_stack = [''on''], out_lines = [''a'', [], []],
          sequential_blank_lines_count = 2\<rparr> =
       Inr \<lparr>role_specific_stack = [''on''], out_lines = [''a'', [], []],
            sequential_blank_lines_count = 2\<rparr>
   \<and> regex_role_specific_block_start ''# role-specific:on'' \<noteq> None
   \<and> loop_body ''group_vars'' {''on''} {''on'', ''off''} 8 ''# role-specific:on''
        \<lparr>role_specific_stack = [], out_lines = [''a'', [], []],
          sequential_blank_lines_count = 2\<rparr> =
       Inr \<lparr>role_specific_stack = [''on''], out_lines = [''a'', [], []],
            sequential_blank_lines_count = 2\<rparr>
   \<and> scan_lines ''group_vars'' {''on''} {''on'', ''off''} 1
        [''a'', [], ''# role-specific:off'', [], ''x'', ''# /role-specific:off'', [],
         ''# role-specific:on'', [], [], ''b'', ''# /role-specific:on''] initial_state =
       Inr \<lparr>role_specific_stack = [], out_lines = [''a'', [], [], ''b''],
            sequential_blank_lines_count = 0\<rparr>
   \<and> [''a'', [], [], ''b''] =
       drop_long_runs 0 (retained_lines {''on''} []
        [''a'', [], ''# role-specific:off'', [], ''x'', ''# /role-specific:off'', [],
         ''# role-specific:on'', [], [], ''b'', ''# /role-specific:on''])
   \<and> drop_long_runs 0 ([''a''] @ replicate 4 [] @ [''b'']) =
       drop_long_runs 0 [''a''] @ replicate (min 4 2) [] @ drop_long_runs 0 [''b'']"
proof -
  let ?ls = "[''a'', [], ''# role-specific:off'', [], ''x'', ''# /role-specific:off'', [],
         ''# role-specific:on'', [], [], ''b'', ''# /role-specific:on'']"
  let ?st = "\<lparr>role_specific_stack = [''on''], out_lines = [''a'', [], []],
          sequential_blank_lines_count = 2\<rparr>"
  let ?before = "\<lparr>role_specific_stack = [], out_lines = [''a'', [], []],
          sequential_blank_lines_count = 2\<rparr>"
  let ?final = "\<lparr>role_specific_stack = [], out_lines = [''a'', [], [], ''b''],
            sequential_blank_lines_count = 0\<rparr>"
  have m: "regex_role_specific_block_start [] = None" "regex_role_specific_block_end [] = None"
    "regex_role_specific_block_start ''# role-specific:on'' = Some ''on''"
    by (simp_all add: marker_eval)
  have step: "loop_body ''group_vars'' {''on''} {''on'', ''off''} 8 ''# role-specific:on'' ?before =
      Inr ?st"
    by (simp add: loop_body_start [OF m(3)])
  have scan: "scan_lines ''group_vars'' {''on''} {''on'', ''off''} 1 ?ls initial_state = Inr ?final"
    by (simp add: loop_body_def initial_state_def marker_eval)
  from blank_run_compaction [where line = "[]" and st = ?st and en = "{''on''}"
      and f = "''group_vars''" and kn = "{''on'', ''off''}" and n = 10
      and xs = "[''a'']" and ys = "[''b'']" and m = 4] m
  have a: "loop_body ''group_vars'' {''on''} {''on'', ''off''} 10 [] ?st = Inr ?st"
    and d: "drop_long_runs 0 ([''a''] @ replicate 4 [] @ [''b'']) =
       drop_long_runs 0 [''a''] @ replicate (min 4 2) [] @ drop_long_runs 0 [''b'']"
    by simp_all
  from blank_run_compaction [where line = "''# role-specific:on''" and st = ?before and st' = ?st
      and en = "{''on''}" and f = "''group_vars''" and kn = "{''on'', ''off''}" and n = 8] m step
  have b: "out_lines ?st = out_lines ?before" by simp
  from blank_run_compaction [where ls = ?ls and st'' = ?final and n = 1
      and en = "{''on''}" and f = "''group_vars''" and kn = "{''on'', ''off''}"] scan
  have c: "[''a'', [], [], ''b''] = drop_long_runs 0 (retained_lines {''on''} [] ?ls)" by simp
  have m3: "regex_role_specific_block_start ''# role-specific:on'' \<noteq> None"
    using m(3) by simp
  from m(1) m(2) a m3 step scan c d show ?thesis by blast
qed

text \<open>The definitions that evaluate the filter on a given file.\<close>

lemmas filter_eval = process_file_contents_def read_file_def loop_body_def initial_state_def

section \<open>Markers of unknown roles\<close>

text \<open>
  C4. A start marker, and likewise an end marker, whose role name is not among the known
  names makes the step fail with the unknown-role error, whatever the enabled set and
  whatever the stack: the membership test comes before every test of the stack. The error
  carries the role name, the line number, the file name and the known names as a sorted
  list without repetitions. The scan stops at its first error: when the lines before such
  a marker are scanned without error, the filter fails with this error and the number of
  the marker's line, counted from 1; and a file that holds such a marker anywhere makes
  the filter fail.
\<close>

theorem unknown_role_marker:
  "(regex_role_specific_block_start line = Some r \<and> r \<notin> kn \<longrightarrow>
      loop_body f en kn n line st = Inl (UnknownRoleStart r n f (sorted_list_of_set kn)))
   \<and> (regex_role_specific_block_end line = Some r \<and> r \<notin> kn \<longrightarrow>
      loop_body f en kn n line st = Inl (UnknownRoleEnd r n f (sorted_list_of_set kn)))
   \<and> (fs f = Some c \<and> split_lines c = pre @ line # post
      \<and> scan_lines f en kn 1 pre initial_state = Inr st_pre \<and> r \<notin> kn \<longrightarrow>
      (regex_role_specific_block_start line = Some r \<longrightarrow>
         process_file_contents fs f en kn =
           Inl (UnknownRoleStart r (length pre + 1) f (sorted_list_of_set kn)))
      \<and> (regex_role_specific_block_end line = Some r \<longrightarrow>
         process_file_contents fs f en kn =
           Inl (UnknownRoleEnd r (length pre + 1) f (sorted_list_of_set kn))))
   \<and> (fs f = Some c \<and> line \<in> set (split_lines c) \<and> r \<notin> kn
      \<and> (regex_role_specific_block_start line = Some r
         \<or> regex_role_specific_block_end line = Some r) \<longrightarrow>
      (\<exists>e. process_file_contents fs f en kn = Inl e))
   \<and> (finite kn \<longrightarrow>
      sorted (sorted_list_of_set kn) \<and> distinct (sorted_list_of_set kn)
      \<and> set (sorted_list_of_set kn) = kn)"
proof (intro conjI impI)
  assume "regex_role_specific_block_start line = Some r \<and> r \<notin> kn"
  then show "loop_body f en kn n line st = Inl (UnknownRoleStart r n f (sorted_list_of_set kn))"
    by (simp add: loop_body_start)
next
  assume "regex_role_specific_block_end line = Some r \<and> r \<notin> kn"
  then show "loop_body f en kn n line st = Inl (UnknownRoleEnd r n f (sorted_list_of_set kn))"
    by (simp add: loop_body_end)
next
  assume a: "fs f = Some c \<and> split_lines c = pre @ line # post
      \<and> scan_lines f en kn 1 pre initial_state = Inr st_pre \<and> r \<notin> kn"
    and b: "regex_role_specific_block_start line = Some r"
  from a b have "loop_body f en kn (1 + length pre) line st_pre =
      Inl (UnknownRoleStart r (length pre + 1) f (sorted_list_of_set kn))"
    by (simp add: loop_body_start)
  with a have "scan_lines f en kn 1 (split_lines c) initial_state =
      Inl (UnknownRoleStart r (length pre + 1) f (sorted_list_of_set kn))"
    using scan_lines_first_error [of f en kn 1 pre initial_state st_pre line _ post] by simp
  with a show "process_file_contents fs f en kn =
           Inl (UnknownRoleStart r (length pre + 1) f (sorted_list_of_set kn))"
    using process_file_contents_error [of fs f c en kn] by simp
next
  assume a: "fs f = Some c \<and> split_lines c = pre @ line # post
      \<and> scan_lines f en kn 1 pre initial_state = Inr st_pre \<and> r \<notin> kn"
    and b: "regex_role_specific_block_end line = Some r"
  from a b have "loop_body f en kn (1 + length pre) line st_pre =
      Inl (UnknownRoleEnd r (length pre + 1) f (sorted_list_of_set kn))"
    by (simp add: loop_body_end)
  with a have "scan_lines f en kn 1 (split_lines c) initial_state =
      Inl (UnknownRoleEnd r (length pre + 1) f (sorted_list_of_set kn))"
    using scan_lines_first_error [of f en kn 1 pre initial_state st_pre line _ post] by simp
  with a show "process_file_contents fs f en kn =
           Inl (UnknownRoleEnd r (length pre + 1) f (sorted_list_of_set kn))"
    using process_file_contents_error [of fs f c en kn] by simp
next
  assume a: "fs f = Some c \<and> line \<in> set (split_lines c) \<and> r \<notin> kn
      \<and> (regex_role_specific_block_start line = Some r
         \<or> regex_role_specific_block_end line = Some r)"
  then obtain e where "scan_lines f en kn 1 (split_lines c) initial_state = Inl e"
    using scan_lines_unknown [of line "split_lines c" r kn f en 1 initial_state] by blast
  with a show "\<exists>e. process_file_contents fs f en kn = Inl e"
    using process_file_contents_error [of fs f c en kn] by blast
next
  assume "finite kn"
  then show "sorted (sorted_list_of_set kn)" "distinct (sorted_list_of_set kn)"
    "set (sorted_list_of_set kn) = kn"
    by simp_all
qed

theorem unknown_role_marker_witness:
  "regex_role_specific_block_start ''# role-specific:ghost'' = Some ''ghost''
   \<and> regex_role_specific_block_end ''# /role-specific:ghost'' = Some ''ghost''
   \<and> ''ghost'' \<notin> {''web'', ''always'', ''off''}
   \<and> finite {''web'', ''always'', ''off''}
   \<and> sorted_list_of_set {''web'', ''always'', ''off''} = [''always'', ''off'', ''web'']
   \<and> loop_body ''setup.yml'' {} {''web'', ''always'', ''off''} 7 ''# /role-specific:ghost''
        \<lparr>role_specific_stack = [], out_lines = [], sequential_blank_lines_count = 0\<rparr> =
       Inl (UnknownRoleEnd ''ghost'' 7 ''setup.yml'' [''always'', ''off'', ''web''])
   \<and> split_lines (''# role-specific:off'' @ [CHR 0x0A] @ ''x'' @ [CHR 0x0A]
         @ ''# /role-specific:off'' @ [CHR 0x0A] @ ''# role-specific:ghost'') =
       [''# role-specific:off'', ''x'', ''# /role-specific:off''] @ ''# role-specific:ghost'' # []
   \<and> scan_lines ''setup.yml'' {''web'', ''always''} {''web'', ''always'', ''off''} 1
        [''# role-specific:off'', ''x'', ''# /role-specific:off''] initial_state = Inr initial_state
   \<and> process_file_contents
        [''setup.yml'' \<mapsto> ''# role-specific:off'' @ [CHR 0x0A] @ ''x'' @ [CHR 0x0A]
           @ ''# /role-specific:off'' @ [CHR 0x0A] @ ''# role-specific:ghost'']
        ''setup.yml'' {''web'', ''always''} {''web'', ''always'', ''off''} =
       Inl (UnknownRoleStart ''ghost'' 4 ''setup.yml'' [''always'', ''off'', ''web''])"
proof -
  let ?kn = "{''web'', ''always'', ''off''}"
  let ?text = "''# role-specific:off'' @ [CHR 0x0A] @ ''x'' @ [CHR 0x0A]
         @ ''# /role-specific:off'' @ [CHR 0x0A] @ ''# role-specific:ghost''"
  let ?pre = "[''# role-specific:off'', ''x'', ''# /role-specific:off'']"
  have m: "regex_role_specific_block_start ''# role-specific:ghost'' = Some ''ghost''"
    "regex_role_specific_block_end ''# /role-specific:ghost'' = Some ''ghost''"
    by (simp_all add: marker_eval)
  have k: "''ghost'' \<notin> ?kn" "finite ?kn" by simp_all
  have srt: "sorted_list_of_set ?kn = [''always'', ''off'', ''web'']" by simp
  have sp: "split_lines ?text = ?pre @ ''# role-specific:ghost'' # []" by simp
  have pre: "scan_lines ''setup.yml'' {''web'', ''always''} ?kn 1 ?pre initial_state
      = Inr initial_state"
    by (simp add: loop_body_def initial_state_def marker_eval)
  have fs: "[''setup.yml'' \<mapsto> ?text] ''setup.yml'' = Some ?text" by simp
  note t = unknown_role_marker [where r = "''ghost''" and kn = ?kn and f = "''setup.yml''"]
  from t [where line = "''# /role-specific:ghost''" and en = "{}" and n = 7
      and st = "\<lparr>role_specific_stack = [], out_lines = [], sequential_blank_lines_count = 0\<rparr>"]
    m(2) k(1) srt
  have e: "loop_body ''setup.yml'' {} ?kn 7 ''# /role-specific:ghost''
        \<lparr>role_specific_stack = [], out_lines = [], sequential_blank_lines_count = 0\<rparr> =
       Inl (UnknownRoleEnd ''ghost'' 7 ''setup.yml'' [''always'', ''off'', ''web''])"
    by simp
  from t [where line = "''# role-specific:ghost''" and en = "{''web'', ''always''}"
      and fs = "[''setup.yml'' \<mapsto> ?text]" and c = ?text and pre = ?pre and post = "[]"
      and st_pre = initial_state] m(1) k(1) srt sp pre fs
  have p: "process_file_contents [''setup.yml'' \<mapsto> ?text] ''setup.yml'' {''web'', ''always''} ?kn
      = Inl (UnknownRoleStart ''ghost'' 4 ''setup.yml'' [''always'', ''off'', ''web''])"
    by simp
  from m k srt e sp pre p show ?thesis by blast
qed

section \<open>End markers out of order\<close>

text \<open>
  C5. An end marker of a known role fails exactly when the stack is empty or its top, the
  last element, is another role: with no open block the error is the end without opening,
  with another role on top it is the error that names the last opened role, and both are
  unbalanced-block errors; otherwise the step succeeds and pops the stack. In particular,
  when a start marker of A is followed at once by an end marker of B, both roles known
  and different, and the lines before them scan without error, the filter fails with the
  unbalanced-block error of B against A at the line of the end marker.
\<close>

theorem unbalanced_end_marker:
  "(regex_role_specific_block_end line = Some r \<and> r \<in> kn \<longrightarrow>
      (role_specific_stack st = [] \<longrightarrow>
         loop_body f en kn n line st = Inl (EndWithoutOpening r n f))
      \<and> (role_specific_stack st \<noteq> [] \<and> last (role_specific_stack st) \<noteq> r \<longrightarrow>
         loop_body f en kn n line st =
           Inl (EndOfOtherRole r n f (last (role_specific_stack st))))
      \<and> (role_specific_stack st \<noteq> [] \<and> last (role_specific_stack st) = r \<longrightarrow>
         loop_body f en kn n line st =
           Inr (st\<lparr>role_specific_stack := butlast (role_specific_stack st)\<rparr>))
      \<and> ((\<exists>e. loop_body f en kn n line st = Inl e \<and> unbalanced_block_error e) \<longleftrightarrow>
           role_specific_stack st = [] \<or> last (role_specific_stack st) \<noteq> r)
      \<and> ((\<exists>e. loop_body f en kn n line st = Inl e) \<longleftrightarrow>
           role_specific_stack st = [] \<or> last (role_specific_stack st) \<noteq> r))
   \<and> (fs f = Some c \<and> split_lines c = pre @ open_A # close_B # post
      \<and> scan_lines f en kn 1 pre initial_state = Inr st_pre
      \<and> regex_role_specific_block_start open_A = Some A
      \<and> regex_role_specific_block_end close_B = Some B
      \<and> A \<in> kn \<and> B \<in> kn \<and> A \<noteq> B \<longrightarrow>
      process_file_contents fs f en kn = Inl (EndOfOtherRole B (length pre + 2) f A))"
proof (intro conjI impI)
  assume a: "fs f = Some c \<and> split_lines c = pre @ open_A # close_B # post
      \<and> scan_lines f en kn 1 pre initial_state = Inr st_pre
      \<and> regex_role_specific_block_start open_A = Some A
      \<and> regex_role_specific_block_end close_B = Some B
      \<and> A \<in> kn \<and> B \<in> kn \<and> A \<noteq> B"
  let ?st = "st_pre\<lparr>role_specific_stack := role_specific_stack st_pre @ [A]\<rparr>"
  from a have "scan_lines f en kn 1 (pre @ [open_A]) initial_state = Inr ?st"
    by (simp add: scan_lines_append loop_body_start)
  moreover from a have "loop_body f en kn (1 + length (pre @ [open_A])) close_B ?st =
      Inl (EndOfOtherRole B (length pre + 2) f A)"
    by (auto simp: loop_body_end)
  ultimately have "scan_lines f en kn 1 ((pre @ [open_A]) @ close_B # post) initial_state =
      Inl (EndOfOtherRole B (length pre + 2) f A)"
    by (rule scan_lines_first_error)
  with a show "process_file_contents fs f en kn = Inl (EndOfOtherRole B (length pre + 2) f A)"
    using process_file_contents_error [of fs f c en kn] by simp
qed (auto simp: loop_body_end)

theorem unbalanced_end_marker_witness:
  "regex_role_specific_block_end ''# /role-specific:B'' = Some ''B'' \<and> ''B'' \<in> {''A'', ''B''}
   \<and> loop_body ''setup.yml'' {} {''A'', ''B''} 5 ''# /role-specific:B''
        \<lparr>role_specific_stack = [], out_lines = [], sequential_blank_lines_count = 0\<rparr> =
       Inl (EndWithoutOpening ''B'' 5 ''setup.yml'')
   \<and> loop_body ''setup.yml'' {} {''A'', ''B''} 5 ''# /role-specific:B''
        \<lparr>role_specific_stack = [''B'', ''A''], out_lines = [], sequential_blank_lines_count = 0\<rparr> =
       Inl (EndOfOtherRole ''B'' 5 ''setup.yml'' ''A'')
   \<and> loop_body ''setup.yml'' {} {''A'', ''B''} 5 ''# /role-specific:B''
        \<lparr>role_specific_stack = [''A'', ''B''], out_lines = [], sequential_blank_lines_count = 0\<rparr> =
       Inr \<lparr>role_specific_stack = [''A''], out_lines = [], sequential_blank_lines_count = 0\<rparr>
   \<and> regex_role_specific_block_start ''# role-specific:A'' = Some ''A''
   \<and> split_lines (''# role-specific:A'' @ [CHR 0x0A] @ ''# /role-specific:B'') =
       [] @ ''# role-specific:A'' # ''# /role-specific:B'' # []
   \<and> process_file_contents
        [''setup.yml'' \<mapsto> ''# role-specific:A'' @ [CHR 0x0A] @ ''# /role-specific:B'']
        ''setup.yml'' {''A'', ''B''} {''A'', ''B''} =
       Inl (EndOfOtherRole ''B'' 2 ''setup.yml'' ''A'')"
proof -
  let ?kn = "{''A'', ''B''}"
  let ?text = "''# role-specific:A'' @ [CHR 0x0A] @ ''# /role-specific:B''"
  have m: "regex_role_specific_block_end ''# /role-specific:B'' = Some ''B''"
    "regex_role_specific_block_start ''# role-specific:A'' = Some ''A''"
    by (simp_all add: marker_eval)
  have k: "''B'' \<in> ?kn" "''A'' \<in> ?kn" "''A'' \<noteq> ''B''" by simp_all
  have sp: "split_lines ?text = [] @ ''# role-specific:A'' # ''# /role-specific:B'' # []"
    by simp
  have pre: "scan_lines ''setup.yml'' ?kn ?kn 1 [] initial_state = Inr initial_state" by simp
  have fs: "[''setup.yml'' \<mapsto> ?text] ''setup.yml'' = Some ?text" by simp
  note t = unbalanced_end_marker [where line = "''# /role-specific:B''" and r = "''B''"
      and kn = ?kn and f = "''setup.yml''" and n = 5 and fs = "[''setup.yml'' \<mapsto> ?text]"
      and c = ?text and pre = "[]" and post = "[]" and open_A = "''# role-specific:A''"
      and close_B = "''# /role-specific:B''" and A = "''A''" and B = "''B''"
      and st_pre = initial_state]
  from t [where en = "{}" and st =
      "\<lparr>role_specific_stack = [], out_lines = [], sequential_blank_lines_count = 0\<rparr>"] m(1) k(1)
  have a: "loop_body ''setup.yml'' {} ?kn 5 ''# /role-specific:B''
        \<lparr>role_specific_stack = [], out_lines = [], sequential_blank_lines_count = 0\<rparr> =
       Inl (EndWithoutOpening ''B'' 5 ''setup.yml'')"
    by simp
  from t [where en = "{}" and st =
      "\<lparr>role_specific_stack = [''B'', ''A''], out_lines = [], sequential_blank_lines_count = 0\<rparr>"]
    m(1) k(1)
  have b: "loop_body ''setup.yml'' {} ?kn 5 ''# /role-specific:B''
        \<lparr>role_specific_stack = [''B'', ''A''], out_lines = [], sequential_blank_lines_count = 0\<rparr> =
       Inl (EndOfOtherRole ''B'' 5 ''setup.yml'' ''A'')"
    by simp
  from t [where en = "{}" and st =
      "\<lparr>role_specific_stack = [''A'', ''B''], out_lines = [], sequential_blank_lines_count = 0\<rparr>"]
    m(1) k(1)
  have c: "loop_body ''setup.yml'' {} ?kn 5 ''# /role-specific:B''
        \<lparr>role_specific_stack = [''A'', ''B''], out_lines = [], sequential_blank_lines_count = 0\<rparr> =
       Inr \<lparr>role_specific_stack = [''A''], out_lines = [], sequential_blank_lines_count = 0\<rparr>"
    by simp
  from t [where en = ?kn and st = initial_state] m k sp pre fs
  have d: "process_file_contents [''setup.yml'' \<mapsto> ?text] ''setup.yml'' ?kn ?kn =
       Inl (EndOfOtherRole ''B'' 2 ''setup.yml'' ''A'')"
    by simp
  show ?thesis by (intro conjI; (rule m k(1) a b c sp d))
qed

section \<open>The end of the input\<close>

text \<open>
  C6. When the scan reaches the end of the input, a stack that is not empty makes the
  filter fail with the unclosed-block error, which carries the file name and the stack as
  it is; an empty stack makes it return the retained lines joined by newlines. The stack
  lists the open roles in the order of their start markers, the outermost first: start
  markers of known roles append their names in order, and a file that ends with the
  start markers of A and then B, nothing else being open, fails with the list A, B.
\<close>

theorem end_of_input:
  "(fs f = Some c \<and> scan_lines f en kn 1 (split_lines c) initial_state = Inr st \<longrightarrow>
      (role_specific_stack st \<noteq> [] \<longrightarrow>
         process_file_contents fs f en kn = Inl (UnclosedBlocks f (role_specific_stack st)))
      \<and> (role_specific_stack st = [] \<longrightarrow>
         process_file_contents fs f en kn = Inr (join_lines (out_lines st))))
   \<and> (scan_lines f en kn n ls stb = Inr stc
      \<and> list_all2 (\<lambda>l r. regex_role_specific_block_start l = Some r) ms rs
      \<and> set rs \<subseteq> kn \<longrightarrow>
      scan_lines f en kn n (ls @ ms) stb =
        Inr (stc\<lparr>role_specific_stack := role_specific_stack stc @ rs\<rparr>))
   \<and> (fs f = Some c \<and> split_lines c = ls @ [open_A, open_B]
      \<and> scan_lines f en kn 1 ls initial_state = Inr stc \<and> role_specific_stack stc = []
      \<and> regex_role_specific_block_start open_A = Some A
      \<and> regex_role_specific_block_start open_B = Some B \<and> A \<in> kn \<and> B \<in> kn \<longrightarrow>
      process_file_contents fs f en kn = Inl (UnclosedBlocks f [A, B]))"
proof (intro conjI impI)
  assume "fs f = Some c \<and> scan_lines f en kn 1 (split_lines c) initial_state = Inr st"
    and "role_specific_stack st \<noteq> []"
  then show "process_file_contents fs f en kn = Inl (UnclosedBlocks f (role_specific_stack st))"
    using process_file_contents_scan [of fs f c en kn st] by simp
next
  assume "fs f = Some c \<and> scan_lines f en kn 1 (split_lines c) initial_state = Inr st"
    and "role_specific_stack st = []"
  then show "process_file_contents fs f en kn = Inr (join_lines (out_lines st))"
    using process_file_contents_scan [of fs f c en kn st] by simp
next
  assume "scan_lines f en kn n ls stb = Inr stc
      \<and> list_all2 (\<lambda>l r. regex_role_specific_block_start l = Some r) ms rs
      \<and> set rs \<subseteq> kn"
  then show "scan_lines f en kn n (ls @ ms) stb =
        Inr (stc\<lparr>role_specific_stack := role_specific_stack stc @ rs\<rparr>)"
    by (simp add: scan_lines_append scan_lines_starts)
next
  assume a: "fs f = Some c \<and> split_lines c = ls @ [open_A, open_B]
      \<and> scan_lines f en kn 1 ls initial_state = Inr stc \<and> role_specific_stack stc = []
      \<and> regex_role_specific_block_start open_A = Some A
      \<and> regex_role_specific_block_start open_B = Some B \<and> A \<in> kn \<and> B \<in> kn"
  then have "scan_lines f en kn 1 (split_lines c) initial_state =
      Inr (stc\<lparr>role_specific_stack := [A, B]\<rparr>)"
    by (simp add: scan_lines_append loop_body_start)
  with a show "process_file_contents fs f en kn = Inl (UnclosedBlocks f [A, B])"
    using process_file_contents_scan [of fs f c en kn "stc\<lparr>role_specific_stack := [A, B]\<rparr>"]
    by simp
qed

theorem end_of_input_witness:
  "scan_lines ''setup.yml'' {''A''} {''A'', ''B''} 1
      (split_lines (''# role-specific:A'' @ [CHR 0x0A] @ ''x'' @ [CHR 0x0A] @ ''# /role-specific:A''))
      initial_state =
     Inr \<lparr>role_specific_stack = [], out_lines = [''x''], sequential_blank_lines_count = 0\<rparr>
   \<and> process_file_contents
        [''setup.yml'' \<mapsto> ''# role-specific:A'' @ [CHR 0x0A] @ ''x'' @ [CHR 0x0A]
           @ ''# /role-specific:A'']
        ''setup.yml'' {''A''} {''A'', ''B''} = Inr ''x''
   \<and> scan_lines ''setup.yml'' {''A''} {''A'', ''B''} 1
      (split_lines (''x'' @ [CHR 0x0A] @ ''# role-specific:A'')) initial_state =
     Inr \<lparr>role_specific_stack = [''A''], out_lines = [''x''], sequential_blank_lines_count = 0\<rparr>
   \<and> process_file_contents [''setup.yml'' \<mapsto> ''x'' @ [CHR 0x0A] @ ''# role-specific:A'']
        ''setup.yml'' {''A''} {''A'', ''B''} = Inl (UnclosedBlocks ''setup.yml'' [''A''])
   \<and> list_all2 (\<lambda>l r. regex_role_specific_block_start l = Some r)
        [''# role-specific:A'', ''# role-specific:B''] [''A'', ''B'']
   \<and> scan_lines ''setup.yml'' {''A''} {''A'', ''B''} 1
        ([''x''] @ [''# role-specific:A'', ''# role-specific:B'']) initial_state =
       Inr \<lparr>role_specific_stack = [''A'', ''B''], out_lines = [''x''],
            sequential_blank_lines_count = 0\<rparr>
   \<and> process_file_contents
        [''setup.yml'' \<mapsto> ''x'' @ [CHR 0x0A] @ ''# role-specific:A'' @ [CHR 0x0A]
           @ ''# role-specific:B'']
        ''setup.yml'' {''A''} {''A'', ''B''} = Inl (UnclosedBlocks ''setup.yml'' [''A'', ''B''])"
proof -
  let ?kn = "{''A'', ''B''}"
  let ?closed = "''# role-specific:A'' @ [CHR 0x0A] @ ''x'' @ [CHR 0x0A] @ ''# /role-specific:A''"
  let ?one = "''x'' @ [CHR 0x0A] @ ''# role-specific:A''"
  let ?two = "''x'' @ [CHR 0x0A] @ ''# role-specific:A'' @ [CHR 0x0A] @ ''# role-specific:B''"
  let ?x = "\<lparr>role_specific_stack = [], out_lines = [''x''], sequential_blank_lines_count = 0\<rparr>"
  let ?xA = "\<lparr>role_specific_stack = [''A''], out_lines = [''x''],
      sequential_blank_lines_count = 0\<rparr>"
  have m: "regex_role_specific_block_start ''# role-specific:A'' = Some ''A''"
    "regex_role_specific_block_start ''# role-specific:B'' = Some ''B''"
    by (simp_all add: marker_eval)
  have s1: "scan_lines ''setup.yml'' {''A''} ?kn 1 (split_lines ?closed) initial_state = Inr ?x"
    by (simp add: loop_body_def initial_state_def marker_eval)
  have s2: "scan_lines ''setup.yml'' {''A''} ?kn 1 (split_lines ?one) initial_state = Inr ?xA"
    by (simp add: loop_body_def initial_state_def marker_eval)
  have s3: "scan_lines ''setup.yml'' {''A''} ?kn 1 [''x''] initial_state = Inr ?x"
    by (simp add: loop_body_def initial_state_def marker_eval)
  have sp: "split_lines ?two = [''x''] @ [''# role-specific:A'', ''# role-specific:B'']" by simp
  have la: "list_all2 (\<lambda>l r. regex_role_specific_block_start l = Some r)
        [''# role-specific:A'', ''# role-specific:B''] [''A'', ''B'']"
    using m by simp
  note t = end_of_input [where f = "''setup.yml''" and en = "{''A''}" and kn = ?kn
      and n = 1 and ls = "[''x'']" and stb = initial_state and stc = ?x
      and ms = "[''# role-specific:A'', ''# role-specific:B'']" and rs = "[''A'', ''B'']"
      and open_A = "''# role-specific:A''" and open_B = "''# role-specific:B''"
      and A = "''A''" and B = "''B''"]
  from t [where fs = "[''setup.yml'' \<mapsto> ?closed]" and c = ?closed and st = ?x] s1
  have a: "process_file_contents [''setup.yml'' \<mapsto> ?closed] ''setup.yml'' {''A''} ?kn = Inr ''x''"
    by simp
  from t [where fs = "[''setup.yml'' \<mapsto> ?one]" and c = ?one and st = ?xA] s2
  have b: "process_file_contents [''setup.yml'' \<mapsto> ?one] ''setup.yml'' {''A''} ?kn =
      Inl (UnclosedBlocks ''setup.yml'' [''A''])"
    by simp
  from t [where fs = "[''setup.yml'' \<mapsto> ?two]" and c = ?two and st = ?x] s3 la
  have c: "scan_lines ''setup.yml'' {''A''} ?kn 1
        ([''x''] @ [''# role-specific:A'', ''# role-specific:B'']) initial_state =
       Inr \<lparr>role_specific_stack = [''A'', ''B''], out_lines = [''x''],
            sequential_blank_lines_count = 0\<rparr>"
    by simp
  from t [where fs = "[''setup.yml'' \<mapsto> ?two]" and c = ?two and st = ?x] m sp s3
  have d: "process_file_contents [''setup.yml'' \<mapsto> ?two] ''setup.yml'' {''A''} ?kn =
      Inl (UnclosedBlocks ''setup.yml'' [''A'', ''B''])"
    by simp
  show ?thesis by (intro conjI; (rule s1 a s2 b la c d))
qed

section \<open>Files without markers\<close>

text \<open>
  C7. On a text none of whose lines matches the start or the end pattern the filter
  succeeds, for any enabled and known sets, and returns the lines of the text with the
  third and later members of every run of blank lines removed, joined again; joining the
  lines of a text gives the text back, so nothing else changes. A line is a piece of the
  text between two newlines, as \<^verbatim>\<open>split\<close> cuts it. On the lines the removal leaves
  lists without blank lines as they are and turns a run of \<open>m\<close> blank lines between other
  lines into \<open>min m 2\<close> blank lines.
\<close>

theorem marker_free_text:
  "(fs f = Some c
      \<and> (\<forall>l \<in> set (split_lines c).
            regex_role_specific_block_start l = None \<and> regex_role_specific_block_end l = None)
      \<longrightarrow>
      process_file_contents fs f en kn = Inr (join_lines (drop_long_runs 0 (split_lines c))))
   \<and> ((xs = [] \<or> last xs \<noteq> []) \<and> (ys = [] \<or> hd ys \<noteq> []) \<longrightarrow>
      drop_long_runs 0 (xs @ replicate m [] @ ys) =
        drop_long_runs 0 xs @ replicate (min m 2) [] @ drop_long_runs 0 ys)
   \<and> ([] \<notin> set zs \<longrightarrow> drop_long_runs 0 zs = zs)
   \<and> join_lines (split_lines c) = c"
proof (intro conjI impI)
  assume "fs f = Some c
      \<and> (\<forall>l \<in> set (split_lines c).
            regex_role_specific_block_start l = None \<and> regex_role_specific_block_end l = None)"
  then show "process_file_contents fs f en kn =
      Inr (join_lines (drop_long_runs 0 (split_lines c)))"
    using process_regular_lines [of fs f c en kn] by blast
next
  assume "(xs = [] \<or> last xs \<noteq> []) \<and> (ys = [] \<or> hd ys \<noteq> [])"
  then show "drop_long_runs 0 (xs @ replicate m [] @ ys) =
        drop_long_runs 0 xs @ replicate (min m 2) [] @ drop_long_runs 0 ys"
    using drop_long_runs_run [of xs ys m] by blast
next
  assume "[] \<notin> set zs"
  then show "drop_long_runs 0 zs = zs" by (rule drop_long_runs_no_blank)
next
  show "join_lines (split_lines c) = c" by (rule join_split)
qed

theorem marker_free_text_witness:
  "split_lines (''a:'' @ [CHR 0x0A, CHR 0x0A, CHR 0x0A, CHR 0x0A, CHR 0x0A] @ ''# b'') =
     [''a:''] @ replicate 4 [] @ [''# b'']
   \<and> list_all (\<lambda>l. regex_role_specific_block_start l = None
         \<and> regex_role_specific_block_end l = None) ([''a:''] @ replicate 4 [] @ [''# b''])
   \<and> drop_long_runs 0 ([''a:''] @ replicate 4 [] @ [''# b'']) = [''a:'', [], [], ''# b'']
   \<and> process_file_contents
        [''group_vars'' \<mapsto> ''a:'' @ [CHR 0x0A, CHR 0x0A, CHR 0x0A, CHR 0x0A, CHR 0x0A] @ ''# b'']
        ''group_vars'' {} {''x''} =
       Inr (''a:'' @ [CHR 0x0A, CHR 0x0A, CHR 0x0A] @ ''# b'')"
proof -
  let ?text = "''a:'' @ [CHR 0x0A, CHR 0x0A, CHR 0x0A, CHR 0x0A, CHR 0x0A] @ ''# b''"
  let ?ls = "[''a:''] @ replicate 4 [] @ [''# b'']"
  have r4: "replicate 4 [] = [[], [], [], []::string]" by (simp add: numeral_eq_Suc)
  have sp: "split_lines ?text = ?ls" by (simp add: r4)
  have reg: "\<forall>l \<in> set ?ls.
      regex_role_specific_block_start l = None \<and> regex_role_specific_block_end l = None"
    by (simp add: r4 marker_eval)
  have nb: "[] \<notin> set [''a:'']" "[] \<notin> set [''# b'']" by simp_all
  note t = marker_free_text [where fs = "[''group_vars'' \<mapsto> ?text]" and f = "''group_vars''"
      and c = ?text and en = "{}" and kn = "{''x''}" and m = 4 and xs = "[''a:'']"
      and ys = "[''# b'']"]
  from t [where zs = "[''a:'']"] t [where zs = "[''# b'']"] nb
  have d: "drop_long_runs 0 ?ls = [''a:'', [], [], ''# b'']"
    by (simp add: numeral_eq_Suc)
  from t [where zs = "[''a:'']"] sp reg d
  have p: "process_file_contents [''group_vars'' \<mapsto> ?text] ''group_vars'' {} {''x''} =
      Inr (''a:'' @ [CHR 0x0A, CHR 0x0A, CHR 0x0A] @ ''# b'')"
    by simp
  have la: "list_all (\<lambda>l. regex_role_specific_block_start l = None
         \<and> regex_role_specific_block_end l = None) ?ls"
    using reg by (simp only: list_all_iff)
  show ?thesis by (intro conjI; (rule sp la d p))
qed

section \<open>Filtering twice\<close>

text \<open>
  C8. Whenever the filter succeeds, no line of its output is a marker, and the filter
  applied with the same enabled and known sets to a file that holds this output returns
  the output unchanged.
\<close>

theorem filter_idempotent:
  assumes "process_file_contents fs f en kn = Inr out"
  shows "(\<forall>l \<in> set (split_lines out).
            regex_role_specific_block_start l = None \<and> regex_role_specific_block_end l = None)
       \<and> process_file_contents (fs(g \<mapsto> out)) g en kn = Inr out"
proof -
  from process_output_lines [OF assms] obtain ls where
    out: "out = join_lines (drop_long_runs 0 ls)" and
    ls: "\<forall>l \<in> set ls. CHR 0x0A \<notin> set l \<and> regex_role_specific_block_start l = None
            \<and> regex_role_specific_block_end l = None"
    by blast
  let ?O = "drop_long_runs 0 ls"
  have O: "\<forall>l \<in> set ?O. CHR 0x0A \<notin> set l \<and> regex_role_specific_block_start l = None
            \<and> regex_role_specific_block_end l = None"
    using ls drop_long_runs_subset [of 0 ls] by blast
  have g: "(fs(g \<mapsto> out)) g = Some out" by simp
  show ?thesis
  proof (cases "?O = []")
    case True
    then have "out = []" using out by simp
    then have sp: "split_lines out = [[]]" by simp
    have reg: "\<forall>l \<in> set (split_lines out).
        regex_role_specific_block_start l = None \<and> regex_role_specific_block_end l = None"
      using sp blank_not_marker by simp
    from process_regular_lines [of "fs(g \<mapsto> out)" g out, OF g reg, of en kn] sp \<open>out = []\<close> reg
    show ?thesis by simp
  next
    case False
    have sp: "split_lines out = ?O"
      unfolding out using False O by (intro split_join) auto
    have reg: "\<forall>l \<in> set (split_lines out).
        regex_role_specific_block_start l = None \<and> regex_role_specific_block_end l = None"
      using sp O by simp
    from process_regular_lines [of "fs(g \<mapsto> out)" g out, OF g reg, of en kn] sp out reg
      drop_long_runs_idem [of 0 ls]
    show ?thesis by simp
  qed
qed

theorem filter_idempotent_witness:
  "process_file_contents
      [''setup.yml'' \<mapsto> ''a'' @ [CHR 0x0A, CHR 0x0A] @ ''# role-specific:off'' @ [CHR 0x0A] @ ''x''
         @ [CHR 0x0A] @ ''# /role-specific:off'' @ [CHR 0x0A, CHR 0x0A, CHR 0x0A] @ ''b'']
      ''setup.yml'' {''on''} {''on'', ''off''} = Inr (''a'' @ [CHR 0x0A, CHR 0x0A, CHR 0x0A] @ ''b'')
   \<and> list_all (\<lambda>l. regex_role_specific_block_start l = None
         \<and> regex_role_specific_block_end l = None)
       (split_lines (''a'' @ [CHR 0x0A, CHR 0x0A, CHR 0x0A] @ ''b''))
   \<and> process_file_contents
      ([''setup.yml'' \<mapsto> ''a'' @ [CHR 0x0A, CHR 0x0A] @ ''# role-specific:off'' @ [CHR 0x0A] @ ''x''
         @ [CHR 0x0A] @ ''# /role-specific:off'' @ [CHR 0x0A, CHR 0x0A, CHR 0x0A] @ ''b'']
       (''out.yml'' \<mapsto> ''a'' @ [CHR 0x0A, CHR 0x0A, CHR 0x0A] @ ''b''))
      ''out.yml'' {''on''} {''on'', ''off''} = Inr (''a'' @ [CHR 0x0A, CHR 0x0A, CHR 0x0A] @ ''b'')"
proof -
  let ?text = "''a'' @ [CHR 0x0A, CHR 0x0A] @ ''# role-specific:off'' @ [CHR 0x0A] @ ''x''
         @ [CHR 0x0A] @ ''# /role-specific:off'' @ [CHR 0x0A, CHR 0x0A, CHR 0x0A] @ ''b''"
  let ?out = "''a'' @ [CHR 0x0A, CHR 0x0A, CHR 0x0A] @ ''b''"
  have first: "process_file_contents [''setup.yml'' \<mapsto> ?text] ''setup.yml'' {''on''}
      {''on'', ''off''} = Inr ?out"
    by (simp add: filter_eval marker_eval)
  from filter_idempotent [of "[''setup.yml'' \<mapsto> ?text]" "''setup.yml''" "{''on''}"
      "{''on'', ''off''}" ?out "''out.yml''", OF first] first
  show ?thesis by (simp only: list_all_iff) blast
qed

section \<open>Variable sources\<close>

text \<open>
  What the loader of the variable names does: an empty document adds no name and no
  error, a value that is true as a condition and is not a mapping is an error, and a
  successful load returns the union of the keys of the mappings.
\<close>

lemma load_names_loop_empty_document:
  "safe_load p = Inr PNone \<Longrightarrow>
   load_names_loop safe_load (p # ps) names = load_names_loop safe_load ps names"
  by simp

lemma load_names_loop_truthy_not_mapping:
  "safe_load p = Inr v \<Longrightarrow> truthy v \<Longrightarrow> \<forall>kvs. v \<noteq> PDict kvs \<Longrightarrow>
   load_names_loop safe_load (p # ps) names = Inl (VarsFileNotMapping p v)"
  by (cases v) auto

lemma load_names_loop_union:
  "load_names_loop safe_load ps names = Inr result \<Longrightarrow>
   result = names \<union> {k. \<exists>p \<in> set ps. \<exists>kvs. safe_load p = Inr (PDict kvs) \<and> k \<in> fst ` set kvs}"
proof (induction ps arbitrary: names)
  case Nil
  then show ?case by simp
next
  case (Cons p ps)
  from Cons.prems obtain v where v: "safe_load p = Inr v"
    by (auto split: sum.splits)
  show ?case
  proof (cases "truthy v")
    case False
    with Cons.prems v have "load_names_loop safe_load ps names = Inr result" by simp
    from Cons.IH [OF this] v False show ?thesis by auto
  next
    case True
    with Cons.prems v obtain kvs where kvs: "v = PDict kvs"
      by (cases v) auto
    with Cons.prems v True have
      "load_names_loop safe_load ps (names \<union> set (map fst kvs)) = Inr result"
      by simp
    from Cons.IH [OF this] v kvs show ?thesis by auto
  qed
qed

text \<open>
  C9. A source whose document is the empty sequence, \<^verbatim>\<open>false\<close>, \<^verbatim>\<open>0\<close> or the empty
  string is not a mapping, and yet it is loaded without error and without names:
  \<^verbatim>\<open>yaml.safe_load(file) or {}\<close> replaces every value that is false as a condition, not
  only None, before the test \<^verbatim>\<open>isinstance(yaml_data, dict)\<close>. A sequence with an element
  is rejected.
\<close>

theorem falsy_vars_source_accepted:
  "load_combined_variable_names_from_files (\<lambda>path. Inr (PList [])) [''vars.yml''] = Inr {}
   \<and> load_combined_variable_names_from_files (\<lambda>path. Inr (PBool False)) [''vars.yml''] = Inr {}
   \<and> load_combined_variable_names_from_files (\<lambda>path. Inr (PInt 0)) [''vars.yml''] = Inr {}
   \<and> load_combined_variable_names_from_files (\<lambda>path. Inr (PStr [])) [''vars.yml''] = Inr {}
   \<and> load_combined_variable_names_from_files (\<lambda>path. Inr (PList [PStr ''a''])) [''vars.yml'']
       = Inl (VarsFileNotMapping ''vars.yml'' (PList [PStr ''a'']))"
  by (simp add: load_combined_variable_names_from_files_def)

section \<open>Enabled names are known names\<close>

lemma enabled_role_definitions_subset:
  "enabled_role_definitions ds names = Inr eds \<Longrightarrow> set eds \<subseteq> set ds"
proof (induction ds arbitrary: eds)
  case Nil
  then show ?case by simp
next
  case (Cons d ds)
  then show ?case
    by (auto split: pyval.splits if_splits sum.splits)
qed

lemma role_names_set:
  "role_names ds = Inr K \<Longrightarrow> K = {v. \<exists>d \<in> set ds. definition_name d = Inr v}"
proof (induction ds arbitrary: K)
  case Nil
  then show ?case by simp
next
  case (Cons d ds)
  from Cons.prems obtain v K' where v: "definition_name d = Inr v"
    and K': "role_names ds = Inr K'" and K: "K = insert v K'"
    by (auto split: sum.splits if_splits)
  from Cons.IH [OF K'] v K show ?case by auto
qed

lemma role_names_mono:
  assumes "set eds \<subseteq> set ds" and "role_names ds = Inr K" and "role_names eds = Inr E"
  shows "E \<subseteq> K"
  using role_names_set [OF assms(2)] role_names_set [OF assms(3)] assms(1) by blast

text \<open>
  C10. The enabled definitions are selected from the validated list of all definitions, so
  the set of their names is a subset of the set of all names: whenever the script gets as
  far as the two sets, every enabled role name is a known role name.
\<close>

theorem enabled_subset_known:
  "(enabled_role_definitions all_role_definitions used_variable_names = Inr enabled_definitions
      \<and> role_names all_role_definitions = Inr known
      \<and> role_names enabled_definitions = Inr enabled \<longrightarrow> enabled \<subseteq> known)
   \<and> (resolve safe_load vars_paths path = Inr (enabled_names, known_names) \<longrightarrow>
      enabled_names \<subseteq> known_names)"
proof (intro conjI impI)
  assume "enabled_role_definitions all_role_definitions used_variable_names = Inr enabled_definitions
      \<and> role_names all_role_definitions = Inr known
      \<and> role_names enabled_definitions = Inr enabled"
  then show "enabled \<subseteq> known"
    using enabled_role_definitions_subset role_names_mono by blast
next
  assume "resolve safe_load vars_paths path = Inr (enabled_names, known_names)"
  then obtain names ds eds where
    "enabled_role_definitions ds names = Inr eds"
    "role_names ds = Inr known_names" "role_names eds = Inr enabled_names"
    unfolding resolve_def by (auto split: sum.splits pyval.splits)
  then show "enabled_names \<subseteq> known_names"
    using enabled_role_definitions_subset role_names_mono by blast
qed

theorem enabled_subset_known_witness:
  "resolve example_loader [''vars.yml''] ''requirements.yml'' =
     Inr ({PStr ''web'', PStr ''always''}, {PStr ''web'', PStr ''always'', PStr ''off''})
   \<and> {PStr ''web'', PStr ''always''} \<subseteq> {PStr ''web'', PStr ''always'', PStr ''off''}
   \<and> enabled_role_definitions
        [PDict [(''name'', PStr ''web''), (''activation_prefix'', PStr ''web_'')],
         PDict [(''name'', PStr ''off'')]] {''web_port''} =
       Inr [PDict [(''name'', PStr ''web''), (''activation_prefix'', PStr ''web_'')]]
   \<and> role_names [PDict [(''name'', PStr ''web''), (''activation_prefix'', PStr ''web_'')],
         PDict [(''name'', PStr ''off'')]] = Inr {PStr ''web'', PStr ''off''}
   \<and> role_names [PDict [(''name'', PStr ''web''), (''activation_prefix'', PStr ''web_'')]]
       = Inr {PStr ''web''}
   \<and> {PStr ''web''} \<subseteq> {PStr ''web'', PStr ''off''}"
proof -
  let ?web = "PDict [(''name'', PStr ''web''), (''activation_prefix'', PStr ''web_'')]"
  let ?off = "PDict [(''name'', PStr ''off'')]"
  have r: "resolve example_loader [''vars.yml''] ''requirements.yml'' =
     Inr ({PStr ''web'', PStr ''always''}, {PStr ''web'', PStr ''always'', PStr ''off''})"
    by (simp add: resolve_def example_loader_def load_combined_variable_names_from_files_def
        is_role_definition_in_use_def startswith_def)
  have e: "enabled_role_definitions [?web, ?off] {''web_port''} = Inr [?web]"
    by (simp add: is_role_definition_in_use_def startswith_def)
  have k: "role_names [?web, ?off] = Inr {PStr ''web'', PStr ''off''}"
    "role_names [?web] = Inr {PStr ''web''}"
    by simp_all
  note t = enabled_subset_known [where safe_load = example_loader and vars_paths = "[''vars.yml'']"
      and path = "''requirements.yml''" and enabled_names = "{PStr ''web'', PStr ''always''}"
      and known_names = "{PStr ''web'', PStr ''always'', PStr ''off''}"
      and all_role_definitions = "[?web, ?off]" and used_variable_names = "{''web_port''}"
      and enabled_definitions = "[?web]" and known = "{PStr ''web'', PStr ''off''}"
      and enabled = "{PStr ''web''}"]
  from t r have a: "{PStr ''web'', PStr ''always''} \<subseteq> {PStr ''web'', PStr ''always'', PStr ''off''}"
    by blast
  from t e k have b: "{PStr ''web''} \<subseteq> {PStr ''web'', PStr ''off''}"
    by blast
  show ?thesis by (intro conjI; (rule r a e k b))
qed

end
